theory Spec2Isabelle
  imports Complex_Main
begin

section \<open>Python values used by the sources\<close>

text \<open>
  A Python \<open>str\<close> is a sequence of code points. The model uses \<open>string\<close> and reads each
  \<open>char\<close> as the code point of the same number, so it covers the strings made of code points
  0 to 255. The character classes below are those of CPython on these code points.
\<close>

definition py_isspace :: "char \<Rightarrow> bool" where
  "py_isspace c = (c \<in> set [CHR 0x09, CHR 0x0A, CHR 0x0B, CHR 0x0C, CHR 0x0D, CHR 0x1C, CHR 0x1D,
                            CHR 0x1E, CHR 0x1F, CHR 0x20, CHR 0x85, CHR 0xA0])"

definition py_isdecimal :: "char \<Rightarrow> bool" where
  "py_isdecimal c = (c \<in> set ''0123456789'')"

text \<open>\<open>str.isdigit\<close> also accepts the superscript digits (0xB2, 0xB3, 0xB9), which \<open>int\<close> refuses.\<close>

definition py_isdigit :: "char \<Rightarrow> bool" where
  "py_isdigit c = (py_isdecimal c \<or> c \<in> set [CHR 0xB2, CHR 0xB3, CHR 0xB9])"

definition isdigit :: "string \<Rightarrow> bool" where
  "isdigit s = (s \<noteq> [] \<and> list_all py_isdigit s)"

text \<open>The word characters of \<open>\w\<close> in a \<open>str\<close> pattern: alphanumeric code points and the underscore.\<close>

definition py_isword :: "char \<Rightarrow> bool" where
  "py_isword c = (let n = (of_char c :: nat) in
     (48 \<le> n \<and> n \<le> 57) \<or> (65 \<le> n \<and> n \<le> 90) \<or> n = 95 \<or> (97 \<le> n \<and> n \<le> 122) \<or>
     n = 170 \<or> n = 178 \<or> n = 179 \<or> n = 181 \<or> n = 185 \<or> n = 186 \<or> (188 \<le> n \<and> n \<le> 190) \<or>
     (192 \<le> n \<and> n \<le> 214) \<or> (216 \<le> n \<and> n \<le> 246) \<or> 248 \<le> n)"

definition lower_char :: "char \<Rightarrow> char" where
  "lower_char c = (let n = (of_char c :: nat) in
     if (65 \<le> n \<and> n \<le> 90) \<or> (192 \<le> n \<and> n \<le> 214) \<or> (216 \<le> n \<and> n \<le> 222)
     then char_of (n + 32) else c)"

definition lower :: "string \<Rightarrow> string" where
  "lower s = map lower_char s"

definition startswith :: "string \<Rightarrow> string \<Rightarrow> bool" where
  "startswith s p = (take (length p) s = p)"

definition lstrip :: "string \<Rightarrow> string" where
  "lstrip s = dropWhile py_isspace s"

text \<open>
  The exceptions the sources raise or catch. Every constructor stands for a subclass of
  Python's \<open>Exception\<close>; \<open>retry_after\<close> of the two rate-limit errors is a number of seconds.
\<close>

datatype exn =
    HaltExecution
  | CommandError string
  | RuntimeError string
  | ValueError
  | RateLimitedError real
  | RateLimitTooLongError real
  | InternalServerError
  | OtherException string

subsection \<open>\<open>int(str)\<close> and \<open>str(int)\<close>\<close>

definition digit_val :: "char \<Rightarrow> nat" where
  "digit_val c = of_char c - 48"

text \<open>
  The digits of a decimal literal: single underscores may separate digits. The flag says
  whether the previous character was a digit.
\<close>

fun int_digits :: "bool \<Rightarrow> nat \<Rightarrow> string \<Rightarrow> nat option" where
  "int_digits prev acc [] = (if prev then Some acc else None)"
| "int_digits prev acc (c # cs) =
     (if py_isdecimal c then int_digits True (acc * 10 + digit_val c) cs
      else if c = CHR ''_'' \<and> prev then int_digits False acc cs
      else None)"

text \<open>
  \<open>int(s)\<close>: surrounding whitespace, an optional sign, then the digits; \<open>ValueError\<close>
  otherwise. The whitespace \<open>int\<close> skips is that of C's \<open>isspace\<close> and the spaces beyond
  ASCII; the separators 0x1C to 0x1F, which \<open>str.isspace\<close> accepts, are not skipped.
\<close>

definition int_isspace :: "char \<Rightarrow> bool" where
  "int_isspace c = (c \<in> set [CHR 0x09, CHR 0x0A, CHR 0x0B, CHR 0x0C, CHR 0x0D, CHR 0x20, CHR 0x85, CHR 0xA0])"

definition int_strip :: "string \<Rightarrow> string" where
  "int_strip s = rev (dropWhile int_isspace (rev (dropWhile int_isspace s)))"

definition py_int :: "string \<Rightarrow> exn + int" where
  "py_int s =
     (case int_strip s of
        [] \<Rightarrow> Inl ValueError
      | c # cs \<Rightarrow>
          if c = CHR ''-'' then (case int_digits False 0 cs of None \<Rightarrow> Inl ValueError | Some n \<Rightarrow> Inr (- int n))
          else if c = CHR ''+'' then (case int_digits False 0 cs of None \<Rightarrow> Inl ValueError | Some n \<Rightarrow> Inr (int n))
          else (case int_digits False 0 (c # cs) of None \<Rightarrow> Inl ValueError | Some n \<Rightarrow> Inr (int n)))"

text \<open>\<open>hikari.Snowflake\<close> is a subclass of \<open>int\<close>; \<open>Snowflake(value)\<close> parses like \<open>int(value)\<close>.\<close>

definition Snowflake :: "string \<Rightarrow> exn + int" where
  "Snowflake v = py_int v"

function str_nat :: "nat \<Rightarrow> string" where
  "str_nat n = (if n < 10 then [char_of (48 + n)] else str_nat (n div 10) @ [char_of (48 + n mod 10)])"
  by pat_completeness auto
termination
  by (relation "measure id") auto

declare str_nat.simps [simp del]

section \<open>conversion.py: the snowflake parsers\<close>

text \<open>
  The four mention patterns use literals, optional literals, greedy bounded repetitions of a
  character class, and one capture group around a repetition.
\<close>

datatype cclass = Digit | Word | OneOf string

fun in_class :: "cclass \<Rightarrow> char \<Rightarrow> bool" where
  "in_class Digit c = py_isdecimal c"
| "in_class Word c = py_isword c"
| "in_class (OneOf s) c = (c \<in> set s)"

datatype atom =
    Lit char
  | Opt char
  | Rep cclass nat "nat option"
  | Cap cclass nat "nat option"

type_synonym pattern = "atom list"

fun first_some :: "'a option list \<Rightarrow> 'a option" where
  "first_some [] = None"
| "first_some (None # xs) = first_some xs"
| "first_some (Some x # xs) = Some x"

text \<open>The numbers of characters a greedy repetition may take at the head of \<open>s\<close>, most first.\<close>

definition rep_counts :: "cclass \<Rightarrow> nat \<Rightarrow> nat option \<Rightarrow> string \<Rightarrow> nat list" where
  "rep_counts cl lo hi s =
     (let run = length (takeWhile (in_class cl) s);
          most = (case hi of None \<Rightarrow> run | Some h \<Rightarrow> min h run)
      in rev [lo ..< Suc most])"

text \<open>
  Backtracking match of a pattern at the head of the text: the first success in the order
  Python's engine tries them, as the capture (if the group took part) and the remaining text.
\<close>

fun match_here :: "pattern \<Rightarrow> string \<Rightarrow> string option \<Rightarrow> (string option \<times> string) option" where
  "match_here [] s cap = Some (cap, s)"
| "match_here (Lit c # p) s cap =
     (case s of [] \<Rightarrow> None | x # xs \<Rightarrow> if x = c then match_here p xs cap else None)"
| "match_here (Opt c # p) s cap =
     (case s of
        [] \<Rightarrow> match_here p s cap
      | x # xs \<Rightarrow>
          if x = c then first_some [match_here p xs cap, match_here p s cap]
          else match_here p s cap)"
| "match_here (Rep cl lo hi # p) s cap =
     first_some (map (\<lambda>k. match_here p (drop k s) cap) (rep_counts cl lo hi s))"
| "match_here (Cap cl lo hi # p) s cap =
     first_some (map (\<lambda>k. match_here p (drop k s) (Some (take k s))) (rep_counts cl lo hi s))"

text \<open>
  \<open>Pattern.findall\<close> with one group: the captures of the non-overlapping matches, scanning
  from the left. \<open>skip\<close> counts the characters still covered by the previous match.
\<close>

definition group1 :: "string option \<Rightarrow> string" where
  "group1 cap = (case cap of None \<Rightarrow> [] | Some g \<Rightarrow> g)"

fun findall_scan :: "pattern \<Rightarrow> nat \<Rightarrow> string \<Rightarrow> string list" where
  "findall_scan p skip [] =
     (if skip = 0 then (case match_here p [] None of None \<Rightarrow> [] | Some (cap, _) \<Rightarrow> [group1 cap])
      else [])"
| "findall_scan p skip (c # cs) =
     (if skip > 0 then findall_scan p (skip - 1) cs
      else (case match_here p (c # cs) None of
              None \<Rightarrow> findall_scan p 0 cs
            | Some (cap, rest) \<Rightarrow> group1 cap # findall_scan p (length cs - length rest) cs))"

definition findall :: "pattern \<Rightarrow> string \<Rightarrow> string list" where
  "findall p s = findall_scan p 0 s"

datatype parser = SnowflakeParser | ChannelIDParser | EmojiIDParser | UserIDParser

fun regex :: "parser \<Rightarrow> pattern" where
  "regex SnowflakeParser = [Lit CHR ''<'', Rep (OneOf ''@&?!#'') 1 (Some 3), Cap Digit 1 None, Lit CHR ''>'']"
| "regex ChannelIDParser = [Lit CHR ''<'', Lit CHR ''#'', Cap Digit 1 None, Lit CHR ''>'']"
| "regex EmojiIDParser =
     [Lit CHR ''<'', Opt CHR ''a'', Lit CHR '':'', Rep Word 1 None, Lit CHR '':'', Cap Digit 1 None, Lit CHR ''>'']"
| "regex UserIDParser = [Lit CHR ''<'', Lit CHR ''@'', Opt CHR ''!'', Cap Digit 1 None, Lit CHR ''>'']"

definition match_id :: "parser \<Rightarrow> string \<Rightarrow> exn + int" where
  "match_id cls v =
     (if isdigit v then Snowflake v
      else (case findall (regex cls) v of
              r # _ \<Rightarrow> Snowflake r
            | [] \<Rightarrow> Inl ValueError))"

section \<open>Contexts, checks and effects\<close>

text \<open>
  The per-invocation context, with the attributes the sources read and write. A command is
  named by a number, as are hooks objects, event classes and callbacks of the application:
  Python compares them by identity.
\<close>

record ctx =
  content :: string
  triggering_name :: "string option"
  triggering_prefix :: "string option"
  command :: "nat option"

text \<open>\<open>context.MessageContext(client, content=..., message=...)\<close> and its two setters.\<close>

definition MessageContext :: "string \<Rightarrow> ctx" where
  "MessageContext text = \<lparr>content = text, triggering_name = None, triggering_prefix = None, command = None\<rparr>"

definition set_content :: "ctx \<Rightarrow> string \<Rightarrow> ctx" where
  "set_content cx text = cx\<lparr>content := text\<rparr>"

definition set_triggering_prefix :: "ctx \<Rightarrow> string \<Rightarrow> ctx" where
  "set_triggering_prefix cx prefix = cx\<lparr>triggering_prefix := Some prefix\<rparr>"

type_synonym hooks = nat

type_synonym check = "ctx \<Rightarrow> bool"

text \<open>
  Modelled from the spec: \<open>utilities.gather_checks\<close> (tanjun/utilities.py is not among the
  sources). The result is the conjunction of all checks against the context.
\<close>

definition gather_checks :: "check list \<Rightarrow> ctx \<Rightarrow> bool" where
  "gather_checks cs c = list_all (\<lambda>chk. chk c) cs"

text \<open>
  Modelled from the spec: \<open>context.SlashContext\<close> (tanjun/context.py is not among the
  sources). The context holds the response future of the request, as the list of results
  set on it, and the deferral timer. Responding, the timer running out and marking not
  found resolve the future only when nothing has resolved it yet; a response after that is
  sent as a follow-up. A real response cancels the timer.
\<close>

datatype response = MessageResponse string | DeferredResponse | NotFoundResponse "string option"

record slash_ctx =
  sc_not_found_message :: "string option"
  sc_resolved :: "response list"
  sc_timer :: bool
  sc_followups :: "string list"

definition SlashContext :: "string option \<Rightarrow> slash_ctx" where
  "SlashContext not_found_message =
     \<lparr>sc_not_found_message = not_found_message, sc_resolved = [], sc_timer = False, sc_followups = []\<rparr>"

definition start_defer_timer :: "slash_ctx \<Rightarrow> real \<Rightarrow> slash_ctx" where
  "start_defer_timer cx seconds = cx\<lparr>sc_timer := True\<rparr>"

definition cancel_defer :: "slash_ctx \<Rightarrow> slash_ctx" where
  "cancel_defer cx = cx\<lparr>sc_timer := False\<rparr>"

definition slash_respond :: "slash_ctx \<Rightarrow> string \<Rightarrow> slash_ctx" where
  "slash_respond cx msg =
     (if sc_resolved cx = []
      then cx\<lparr>sc_resolved := sc_resolved cx @ [MessageResponse msg], sc_timer := False\<rparr>
      else cx\<lparr>sc_followups := sc_followups cx @ [msg]\<rparr>)"

definition mark_not_found :: "slash_ctx \<Rightarrow> slash_ctx" where
  "mark_not_found cx =
     (if sc_resolved cx = []
      then cx\<lparr>sc_resolved := sc_resolved cx @ [NotFoundResponse (sc_not_found_message cx)]\<rparr>
      else cx)"

text \<open>The deferral delay runs out: an armed timer answers with the deferred response.\<close>

definition defer_timer_elapses :: "slash_ctx \<Rightarrow> slash_ctx" where
  "defer_timer_elapses cx =
     (if sc_timer cx \<and> sc_resolved cx = []
      then cx\<lparr>sc_resolved := sc_resolved cx @ [DeferredResponse], sc_timer := False\<rparr>
      else cx\<lparr>sc_timer := False\<rparr>)"

text \<open>
  What a lifecycle callback does when called: it suspends some number of times (none for a
  plain function; once for each \<open>await asyncio.sleep(0)\<close>) and then returns or raises.
\<close>

datatype cb_args = NoArgs | CtxArg ctx | SlashCtxArg slash_ctx

record callback =
  cb_id :: nat
  cb_run :: "cb_args \<Rightarrow> nat \<times> exn option"

text \<open>
  The state of one firing when \<open>dispatch_client_callback\<close> hands control back to its caller:
  what it raised, which callbacks had run to their end, which were still suspended, and the
  errors written to the log.
\<close>

record dispatched =
  d_raised :: "exn option"
  d_finished :: "nat list"
  d_pending :: "nat list"
  d_logged :: "exn list"

datatype effect =
    EvalCheck nat
  | ConsiderCommand nat
  | ExecuteCommand nat
  | Respond string
  | Dispatch string dispatched
  | CreateTaskDispatch string

section \<open>The event dispatcher (external collaborator)\<close>

datatype event_type =
    MessageCreateEvent
  | DMMessageCreateEvent
  | GuildMessageCreateEvent
  | InteractionCreateEvent
  | EventClass nat

datatype listener =
    OnMessageCreateEvent
  | OnInteractionCreateEvent
  | OnInteractionCreateRequest
  | Listener nat

type_synonym subscriptions = "(event_type \<times> listener) list"

text \<open>
  Hikari's event manager keeps the subscribed pairs. Unsubscribing a pair that is not
  subscribed raises, which is the case the handlers in the sources are written for.
\<close>

definition subscribe :: "subscriptions \<Rightarrow> event_type \<Rightarrow> listener \<Rightarrow> subscriptions" where
  "subscribe d e l = d @ [(e, l)]"

definition unsubscribe :: "subscriptions \<Rightarrow> event_type \<Rightarrow> listener \<Rightarrow> exn + subscriptions" where
  "unsubscribe d e l = (if (e, l) \<in> set d then Inr (remove1 (e, l) d) else Inl ValueError)"

section \<open>components.py: Component\<close>

record command_obj =
  cmd_id :: nat
  names :: "string list"
  cmd_checks :: "check list"
  cmd_execute :: "ctx \<Rightarrow> hooks set option \<Rightarrow> effect list \<times> exn option"

text \<open>
  Modelled from the spec: \<open>Command.check_context\<close> (tanjun/commands.py is not among the
  sources). A command matches when the unconsumed content starts with one of its trigger
  names followed by whitespace or the end of the text, and its own checks pass; it then
  yields that name.
\<close>

definition name_matches :: "string \<Rightarrow> string \<Rightarrow> bool" where
  "name_matches text name =
     (startswith text name \<and>
      (case drop (length name) text of [] \<Rightarrow> True | c # _ \<Rightarrow> py_isspace c))"

definition command_check_context :: "command_obj \<Rightarrow> ctx \<Rightarrow> string option" where
  "command_check_context cmd c =
     (case find (name_matches (content c)) (names cmd) of
        None \<Rightarrow> None
      | Some name \<Rightarrow> if gather_checks (cmd_checks cmd) c then Some name else None)"

record component =
  comp_checks :: "check list"
  comp_client :: bool
  comp_commands :: "command_obj list"
  comp_hooks :: "hooks option"
  comp_listeners :: "(event_type \<times> listener) list"
  started :: bool

text \<open>
  \<open>comp_client\<close> says whether \<open>_client\<close> is set; the dispatcher of that client is passed
  to \<open>open\<close> and \<open>close\<close> and returned updated. The sets of the class are lists in the
  order the iteration visits them.
\<close>

fun chain_commands :: "command_obj list \<Rightarrow> ctx \<Rightarrow> effect list \<times> (string \<times> command_obj) option" where
  "chain_commands [] c = ([], None)"
| "chain_commands (cmd # cmds) c =
     (case command_check_context cmd c of
        Some name \<Rightarrow> ([ConsiderCommand (cmd_id cmd)], Some (name, cmd))
      | None \<Rightarrow> (case chain_commands cmds c of (t, r) \<Rightarrow> (ConsiderCommand (cmd_id cmd) # t, r)))"

text \<open>
  \<open>check_context\<close> is an asynchronous generator and \<open>execute\<close> takes its first value only:
  the model returns that value and the trace of what was evaluated to produce it.
\<close>

definition check_context :: "component \<Rightarrow> ctx \<Rightarrow> effect list \<times> (string \<times> command_obj) option" where
  "check_context cpt c =
     (let t = map EvalCheck [0 ..< length (comp_checks cpt)] in
      if gather_checks (comp_checks cpt) c
      then (case chain_commands (comp_commands cpt) c of (t', r) \<Rightarrow> (t @ t', r))
      else (t, None))"

definition Component_execute ::
    "component \<Rightarrow> ctx \<Rightarrow> hooks set option \<Rightarrow> ctx \<times> effect list \<times> (exn + bool)" where
  "Component_execute cpt c hks =
     (if \<not> started cpt then (c, [], Inr False)
      else (case check_context cpt c of
              (t, None) \<Rightarrow> (c, t, Inr False)
            | (t, Some (name, cmd)) \<Rightarrow>
                (let c' = c\<lparr>triggering_name := Some name,
                            content := lstrip (drop (length name) (content c)),
                            command := Some (cmd_id cmd)\<rparr>;
                     hks' = (case comp_hooks cpt of
                               None \<Rightarrow> hks
                             | Some h \<Rightarrow>
                                 (case hks of
                                    None \<Rightarrow> Some {h}
                                  | Some hs \<Rightarrow> if hs \<noteq> {} then Some (insert h hs) else Some {h}))
                 in (case cmd_execute cmd c' hks' of
                       (effs, None) \<Rightarrow> (c', t @ [ExecuteCommand (cmd_id cmd)] @ effs, Inr True)
                     | (effs, Some e) \<Rightarrow> (c', t @ [ExecuteCommand (cmd_id cmd)] @ effs, Inl e)))))"

fun unsubscribe_all :: "subscriptions \<Rightarrow> (event_type \<times> listener) list \<Rightarrow> subscriptions \<times> exn option" where
  "unsubscribe_all d [] = (d, None)"
| "unsubscribe_all d ((e, l) # ls) =
     (case unsubscribe d e l of Inl err \<Rightarrow> (d, Some err) | Inr d' \<Rightarrow> unsubscribe_all d' ls)"

definition Component_close :: "component \<Rightarrow> subscriptions \<Rightarrow> component \<times> subscriptions \<times> exn option" where
  "Component_close cpt d =
     (if \<not> started cpt then (cpt, d, None)
      else (let cpt' = cpt\<lparr>started := False\<rparr> in
            if comp_client cpt'
            then (case unsubscribe_all d (comp_listeners cpt') of (d', r) \<Rightarrow> (cpt', d', r))
            else (cpt', d, None)))"

text \<open>In \<open>open\<close>, a listener whose unsubscription raises is skipped by \<open>continue\<close>.\<close>

fun resubscribe_all :: "subscriptions \<Rightarrow> (event_type \<times> listener) list \<Rightarrow> subscriptions" where
  "resubscribe_all d [] = d"
| "resubscribe_all d ((e, l) # ls) =
     (case unsubscribe d e l of
        Inl err \<Rightarrow> resubscribe_all d ls
      | Inr d' \<Rightarrow> resubscribe_all (subscribe d' e l) ls)"

definition Component_open :: "component \<Rightarrow> subscriptions \<Rightarrow> component \<times> subscriptions \<times> exn option" where
  "Component_open cpt d =
     (if started cpt then (cpt, d, None)
      else (let d' = (if comp_client cpt then resubscribe_all d (comp_listeners cpt) else d)
            in (cpt\<lparr>started := True\<rparr>, d', None)))"

section \<open>clients.py: Client\<close>

datatype MessageAcceptsEnum = ACCEPTS_ALL | ACCEPTS_DM_ONLY | ACCEPTS_GUILD_ONLY | ACCEPTS_NONE

fun get_event_type :: "MessageAcceptsEnum \<Rightarrow> event_type option" where
  "get_event_type ACCEPTS_ALL = Some MessageCreateEvent"
| "get_event_type ACCEPTS_DM_ONLY = Some DMMessageCreateEvent"
| "get_event_type ACCEPTS_GUILD_ONLY = Some GuildMessageCreateEvent"
| "get_event_type ACCEPTS_NONE = None"

text \<open>
  Modelled from the spec: the members of \<open>ClientCallbackNames\<close> (tanjun/traits.py is not among
  the sources), by the names the spec lists. Callbacks are stored and looked up under the
  lower-cased name.
\<close>

definition STARTING :: string where "STARTING = ''STARTING''"
definition STARTED :: string where "STARTED = ''STARTED''"
definition CLOSING :: string where "CLOSING = ''CLOSING''"
definition CLOSED :: string where "CLOSED = ''CLOSED''"
definition MESSAGE_COMMAND_NOT_FOUND :: string where
  "MESSAGE_COMMAND_NOT_FOUND = ''MESSAGE_COMMAND_NOT_FOUND''"
definition SLASH_COMMAND_NOT_FOUND :: string where
  "SLASH_COMMAND_NOT_FOUND = ''SLASH_COMMAND_NOT_FOUND''"

datatype user = User (user_id: nat)

datatype fetch_result = Fetched user | FetchRaises exn

text \<open>
  What the client calls on a component of its set: \<open>execute_message(ctx, hooks=hooks)\<close>, which
  may change the context, has effects, and returns a truth value or raises. The \<open>Component\<close>
  of components.py offers this entry point under the name \<open>execute\<close>.
\<close>

type_synonym message_component = "ctx \<Rightarrow> hooks set option \<Rightarrow> ctx \<times> effect list \<times> (exn + bool)"

text \<open>
  The other entry point, \<open>execute_interaction(ctx, hooks=hooks)\<close>, for the command name of
  the interaction: the calls it makes on the context while it runs (responses, and the
  deferral delay running out in the meantime), and whether it returns something true or
  raises.
\<close>

datatype ctx_action = CallRespond string | DeferDelayPasses

type_synonym slash_component = "string \<Rightarrow> hooks set option \<Rightarrow> ctx_action list \<times> (exn + bool)"

record client_component =
  execute_message :: message_component
  execute_interaction :: slash_component

text \<open>
  The attributes of \<open>Client\<close>. Sets are lists without repetition, in iteration order.
  \<open>cache\<close> is \<open>None\<close> without a cache and otherwise holds what \<open>get_me()\<close> returns. \<open>events\<close>
  holds the subscriptions of the event manager, \<open>server\<close> the listener set on the interaction
  server. The REST collaborator is \<open>rest\<close>, the result of its k-th \<open>fetch_my_user()\<close>, with the
  number of calls made so far.
\<close>

record client =
  accepts :: MessageAcceptsEnum
  auto_defer_after :: "real option"
  cache :: "user option option"
  checks :: "check list"
  client_callbacks :: "string \<rightharpoonup> callback list"
  components :: "client_component list"
  events :: "subscriptions option"
  grab_mention_prefix :: bool
  hooks :: "hooks option"
  interaction_not_found :: "string option"
  is_alive :: bool
  message_hooks :: "hooks option"
  prefix_getter :: "(ctx \<Rightarrow> string list) option"
  prefixes :: "string list"
  rest :: "nat \<Rightarrow> fetch_result"
  rest_calls :: nat
  server :: "listener option option"
  slash_hooks :: "hooks option"

text \<open>\<open>Client.__init__\<close> with \<open>event_managed\<close> and \<open>set_global_commands\<close> left at \<open>False\<close>.\<close>

definition Client_init ::
    "(nat \<Rightarrow> fetch_result) \<Rightarrow> user option option \<Rightarrow> subscriptions option \<Rightarrow> listener option option \<Rightarrow> bool \<Rightarrow> client" where
  "Client_init rest0 cache0 events0 server0 mention_prefix =
     \<lparr>accepts = (if events0 \<noteq> None then ACCEPTS_ALL else ACCEPTS_NONE),
      auto_defer_after = Some (26 / 10),
      cache = cache0,
      checks = [],
      client_callbacks = Map.empty,
      components = [],
      events = events0,
      grab_mention_prefix = mention_prefix,
      hooks = None,
      interaction_not_found = Some ''Command not found'',
      is_alive = False,
      message_hooks = None,
      prefix_getter = None,
      prefixes = [],
      rest = rest0,
      rest_calls = 0,
      server = server0,
      slash_hooks = None\<rparr>"

definition set_add :: "'a \<Rightarrow> 'a list \<Rightarrow> 'a list" where
  "set_add x xs = (if x \<in> set xs then xs else xs @ [x])"

definition add_check :: "client \<Rightarrow> check \<Rightarrow> client" where
  "add_check c chk = c\<lparr>checks := checks c @ [chk]\<rparr>"

definition Client_check :: "client \<Rightarrow> ctx \<Rightarrow> bool" where
  "Client_check c cx = gather_checks (checks c) cx"

definition add_component :: "client \<Rightarrow> client_component \<Rightarrow> client" where
  "add_component c cpt = c\<lparr>components := components c @ [cpt]\<rparr>"

definition set_auto_defer_after :: "client \<Rightarrow> real option \<Rightarrow> client" where
  "set_auto_defer_after c time = c\<lparr>auto_defer_after := time\<rparr>"

definition add_prefix :: "client \<Rightarrow> string \<Rightarrow> client" where
  "add_prefix c p = c\<lparr>prefixes := set_add p (prefixes c)\<rparr>"


subsection \<open>Lifecycle callbacks\<close>

text \<open>
  One wrapped callback as a task of the event loop: the number of times it suspends before
  it ends, what it then raises, and what it logs.
\<close>

record task =
  t_id :: nat
  t_delay :: nat
  t_raises :: "exn option"
  t_logs :: "exn option"

definition wrap_client_callback :: "callback \<Rightarrow> cb_args \<Rightarrow> bool \<Rightarrow> task" where
  "wrap_client_callback cb args suppress_exceptions =
     (case cb_run cb args of
        (n, None) \<Rightarrow> \<lparr>t_id = cb_id cb, t_delay = n, t_raises = None, t_logs = None\<rparr>
      | (n, Some exc) \<Rightarrow>
          if suppress_exceptions
          then \<lparr>t_id = cb_id cb, t_delay = n, t_raises = None, t_logs = Some exc\<rparr>
          else \<lparr>t_id = cb_id cb, t_delay = n, t_raises = Some exc, t_logs = None\<rparr>)"

text \<open>
  \<open>asyncio.gather\<close> without \<open>return_exceptions\<close>, in turns of the event loop. Every task takes
  its first step in turn 0, in the order of the list, and a task that suspends \<open>n\<close> times ends
  in turn \<open>n\<close>. When no task raises, the caller resumes once all have ended. Otherwise the
  exception of the task that fails first (the first of the list among those failing in the
  same turn \<open>r\<close>) is set on the awaited future in turn \<open>r + 1\<close>, and the caller resumes with
  it in turn \<open>r + 2\<close>, after the steps of the tasks listed before the failing one and before
  the steps of the others. The tasks that have not ended by then keep running: they are
  not cancelled. The finished and the logged are listed in the order of the task list.
\<close>

definition gather :: "task list \<Rightarrow> dispatched" where
  "gather ts =
     (case filter (\<lambda>t. t_raises t \<noteq> None) ts of
        [] \<Rightarrow>
          \<lparr>d_raised = None, d_finished = map t_id ts, d_pending = [],
           d_logged = List.map_filter t_logs ts\<rparr>
      | f # fs \<Rightarrow>
          (let r = Min (set (map t_delay (f # fs)));
               earlier = takeWhile (\<lambda>t. \<not> (t_raises t \<noteq> None \<and> t_delay t = r)) ts;
               later = dropWhile (\<lambda>t. \<not> (t_raises t \<noteq> None \<and> t_delay t = r)) ts;
               done = filter (\<lambda>t. t_delay t \<le> r + 2) earlier @ filter (\<lambda>t. t_delay t \<le> r + 1) later
           in \<lparr>d_raised = (case later of [] \<Rightarrow> None | t # _ \<Rightarrow> t_raises t),
               d_finished = map t_id done,
               d_pending = map t_id (filter (\<lambda>t. r + 2 < t_delay t) earlier @
                                     filter (\<lambda>t. r + 1 < t_delay t) later),
               d_logged = List.map_filter t_logs done\<rparr>))"

definition dispatch_client_callback :: "client \<Rightarrow> string \<Rightarrow> cb_args \<Rightarrow> bool \<Rightarrow> dispatched" where
  "dispatch_client_callback c event_name args suppress_exceptions =
     (case client_callbacks c (lower event_name) of
        None \<Rightarrow> \<lparr>d_raised = None, d_finished = [], d_pending = [], d_logged = []\<rparr>
      | Some cbs \<Rightarrow>
          if cbs = [] then \<lparr>d_raised = None, d_finished = [], d_pending = [], d_logged = []\<rparr>
          else gather (map (\<lambda>cb. wrap_client_callback cb args suppress_exceptions) cbs))"

subsection \<open>Message dispatch\<close>

definition check_prefix :: "client \<Rightarrow> ctx \<Rightarrow> string option" where
  "check_prefix c cx =
     (case (case prefix_getter c of
              None \<Rightarrow> None
            | Some getter \<Rightarrow> find (startswith (content cx)) (getter cx)) of
        Some prefix \<Rightarrow> Some prefix
      | None \<Rightarrow> find (startswith (content cx)) (prefixes c))"

text \<open>
  How the loop over the components ends: at a component that returned true (by \<open>break\<close> in
  the message handler), by running out, or by an exception.
\<close>

datatype loop_exit = Broke | Exhausted | Raised exn

fun execute_components ::
    "client_component list \<Rightarrow> ctx \<Rightarrow> hooks set option \<Rightarrow> ctx \<times> effect list \<times> loop_exit" where
  "execute_components [] cx hks = (cx, [], Exhausted)"
| "execute_components (cpt # cpts) cx hks =
     (case execute_message cpt cx hks of
        (cx', t, Inl exc) \<Rightarrow> (cx', t, Raised exc)
      | (cx', t, Inr True) \<Rightarrow> (cx', t, Broke)
      | (cx', t, Inr False) \<Rightarrow>
          (case execute_components cpts cx' hks of (cx'', t', r) \<Rightarrow> (cx'', t @ t', r)))"

definition get_message_hooks :: "client \<Rightarrow> hooks set option" where
  "get_message_hooks c =
     (case (hooks c, message_hooks c) of
        (Some h, Some m) \<Rightarrow> Some {h, m}
      | (Some h, None) \<Rightarrow> Some {h}
      | (None, Some m) \<Rightarrow> Some {m}
      | (None, None) \<Rightarrow> None)"

text \<open>
  The result of \<open>on_message_create_event\<close>: the effects in order, and the exception that
  leaves the handler, if any.
\<close>

definition not_found_dispatch :: "client \<Rightarrow> ctx \<Rightarrow> effect list \<Rightarrow> effect list \<times> exn option" where
  "not_found_dispatch c cx t =
     (let d = dispatch_client_callback c MESSAGE_COMMAND_NOT_FOUND (CtxArg cx) True
      in (t @ [Dispatch MESSAGE_COMMAND_NOT_FOUND d], d_raised d))"

definition on_message_create_event :: "client \<Rightarrow> string option \<Rightarrow> effect list \<times> exn option" where
  "on_message_create_event c event_content =
     (case event_content of
        None \<Rightarrow> ([], None)
      | Some text \<Rightarrow>
          (let cx = MessageContext text in
           case check_prefix c cx of
             None \<Rightarrow> ([], None)
           | Some prefix \<Rightarrow>
               (let cx1 = set_triggering_prefix
                            (set_content cx (lstrip (drop (length prefix) (lstrip (content cx))))) prefix in
                if \<not> Client_check c cx1 then ([], None)
                else (case execute_components (components c) cx1 (get_message_hooks c) of
                        (cx2, t, Raised HaltExecution) \<Rightarrow> not_found_dispatch c cx2 t
                      | (cx2, t, Raised (CommandError msg)) \<Rightarrow> (t @ [Respond msg], None)
                      | (cx2, t, Raised exc) \<Rightarrow> (t, Some exc)
                      | (cx2, t, Broke) \<Rightarrow> not_found_dispatch c cx2 t
                      | (cx2, t, Exhausted) \<Rightarrow> not_found_dispatch c cx2 t))))"

subsection \<open>Interaction requests\<close>

definition get_slash_hooks :: "client \<Rightarrow> hooks set option" where
  "get_slash_hooks c =
     (case (hooks c, slash_hooks c) of
        (Some h, Some m) \<Rightarrow> Some {h, m}
      | (Some h, None) \<Rightarrow> Some {h}
      | (None, Some m) \<Rightarrow> Some {m}
      | (None, None) \<Rightarrow> None)"

fun apply_action :: "slash_ctx \<Rightarrow> ctx_action \<Rightarrow> slash_ctx" where
  "apply_action cx (CallRespond msg) = slash_respond cx msg"
| "apply_action cx DeferDelayPasses = defer_timer_elapses cx"

fun execute_interactions ::
    "client_component list \<Rightarrow> string \<Rightarrow> hooks set option \<Rightarrow> slash_ctx \<Rightarrow> slash_ctx \<times> loop_exit" where
  "execute_interactions [] name hks cx = (cx, Exhausted)"
| "execute_interactions (cpt # cpts) name hks cx =
     (case execute_interaction cpt name hks of
        (acts, Inl exc) \<Rightarrow> (foldl apply_action cx acts, Raised exc)
      | (acts, Inr True) \<Rightarrow> (foldl apply_action cx acts, Broke)
      | (acts, Inr False) \<Rightarrow> execute_interactions cpts name hks (foldl apply_action cx acts))"

text \<open>
  \<open>Task.add_done_callback\<close> calls its argument with the finished task. The argument in
  \<open>on_interaction_create_request\<close> is an \<open>async def\<close>: calling it only makes a coroutine
  object that nothing awaits, so its body, given here as a function on the context, does
  not run.
\<close>

definition add_done_callback_async :: "(slash_ctx \<Rightarrow> slash_ctx) \<Rightarrow> slash_ctx \<Rightarrow> slash_ctx" where
  "add_done_callback_async body cx = cx"

text \<open>
  \<open>return await future\<close>: the tasks created before have run; if the future is still
  unresolved an armed timer resolves it when the delay is over; without a result the
  handler never returns, which is \<open>None\<close>.
\<close>

definition await_future :: "slash_ctx \<Rightarrow> slash_ctx \<times> response option" where
  "await_future cx =
     (let cx' = defer_timer_elapses cx
      in (cx', case sc_resolved cx' of [] \<Rightarrow> None | r # _ \<Rightarrow> Some r))"

record request_outcome =
  q_returned :: "response option"
  q_raised :: "exn option"
  q_ctx :: slash_ctx
  q_effects :: "effect list"

definition return_await_future :: "slash_ctx \<Rightarrow> effect list \<Rightarrow> request_outcome" where
  "return_await_future cx effs =
     (case await_future cx of
        (cx', r) \<Rightarrow> \<lparr>q_returned = r, q_raised = None, q_ctx = cx', q_effects = effs\<rparr>)"

definition slash_not_found :: "client \<Rightarrow> slash_ctx \<Rightarrow> request_outcome" where
  "slash_not_found c cx =
     (let d = dispatch_client_callback c SLASH_COMMAND_NOT_FOUND (SlashCtxArg cx) True;
          cx' = add_done_callback_async (\<lambda>x. cancel_defer (mark_not_found x)) cx
      in return_await_future cx' [Dispatch SLASH_COMMAND_NOT_FOUND d])"

definition on_interaction_create_request :: "client \<Rightarrow> string \<Rightarrow> request_outcome" where
  "on_interaction_create_request c name =
     (let cx0 = SlashContext (interaction_not_found c);
          cx = (case auto_defer_after c of None \<Rightarrow> cx0 | Some seconds \<Rightarrow> start_defer_timer cx0 seconds)
      in case execute_interactions (components c) name (get_slash_hooks c) cx of
           (cx1, Broke) \<Rightarrow> return_await_future cx1 []
         | (cx1, Raised HaltExecution) \<Rightarrow> slash_not_found c cx1
         | (cx1, Raised (CommandError msg)) \<Rightarrow> return_await_future (slash_respond cx1 msg) []
         | (cx1, Raised exc) \<Rightarrow> \<lparr>q_returned = None, q_raised = Some exc, q_ctx = cx1, q_effects = []\<rparr>
         | (cx1, Exhausted) \<Rightarrow> slash_not_found c cx1)"

subsection \<open>Opening and closing\<close>

text \<open>
  The retry loop of \<open>open\<close>: \<open>async for _ in retry\<close> with the \<open>else\<close> branch of the loop.
  \<open>Backoff\<close> belongs to the external library yuyo; the number of times its iterator yields
  for \<open>Backoff(max_retries=4, maximum=30)\<close> is the first argument. The waiting itself is not
  modelled. The result is the user or the exception that leaves the loop, with the number
  of \<open>fetch_my_user\<close> calls made so far.
\<close>

fun fetch_my_user_retry :: "nat \<Rightarrow> (nat \<Rightarrow> fetch_result) \<Rightarrow> nat \<Rightarrow> (exn + user) \<times> nat" where
  "fetch_my_user_retry 0 r k =
     (case r k of
        Fetched u \<Rightarrow> (Inr u, Suc k)
      | FetchRaises exc \<Rightarrow> (Inl exc, Suc k))"
| "fetch_my_user_retry (Suc n) r k =
     (case r k of
        Fetched u \<Rightarrow> (Inr u, Suc k)
      | FetchRaises (RateLimitedError t) \<Rightarrow>
          if t > 30 then (Inl (RateLimitedError t), Suc k) else fetch_my_user_retry n r (Suc k)
      | FetchRaises (RateLimitTooLongError t) \<Rightarrow>
          if t > 30 then (Inl (RateLimitTooLongError t), Suc k) else fetch_my_user_retry n r (Suc k)
      | FetchRaises InternalServerError \<Rightarrow> fetch_my_user_retry n r (Suc k)
      | FetchRaises exc \<Rightarrow> (Inl exc, Suc k))"

definition mention_prefixes :: "user \<Rightarrow> string list" where
  "mention_prefixes u = [''<@'' @ str_nat (user_id u) @ ''>'', ''<@!'' @ str_nat (user_id u) @ ''>'']"

text \<open>The block of \<open>open\<close> guarded by \<open>_grab_mention_prefix\<close>.\<close>

definition open_mention_prefix :: "client \<Rightarrow> nat \<Rightarrow> client \<times> exn option" where
  "open_mention_prefix c iterations =
     (if \<not> grab_mention_prefix c then (c, None)
      else (case (case (case cache c of None \<Rightarrow> None | Some me \<Rightarrow> me) of
                    Some u \<Rightarrow> (Inr u, rest_calls c)
                  | None \<Rightarrow> fetch_my_user_retry iterations (rest c) (rest_calls c)) of
              (Inl exc, k) \<Rightarrow> (c\<lparr>rest_calls := k\<rparr>, Some exc)
            | (Inr u, k) \<Rightarrow>
                (c\<lparr>rest_calls := k,
                   prefixes := fold set_add (mention_prefixes u) (prefixes c),
                   grab_mention_prefix := False\<rparr>, None)))"

text \<open>
  \<open>open\<close> returns the client as it is left, the effects, and the exception raised if any.
  The \<open>STARTED\<close> firing is handed to \<open>asyncio.create_task\<close> and runs after \<open>open\<close> has returned.
\<close>

definition Client_open :: "client \<Rightarrow> bool \<Rightarrow> nat \<Rightarrow> client \<times> effect list \<times> exn option" where
  "Client_open c register_listener iterations =
     (if is_alive c then (c, [], Some (RuntimeError ''Client is already alive''))
      else (let d = dispatch_client_callback c STARTING NoArgs False in
            case d_raised d of
              Some exc \<Rightarrow> (c, [Dispatch STARTING d], Some exc)
            | None \<Rightarrow>
                (case open_mention_prefix (c\<lparr>is_alive := True\<rparr>) iterations of
                   (c2, Some exc) \<Rightarrow> (c2, [Dispatch STARTING d], Some exc)
                 | (c2, None) \<Rightarrow>
                     (let c3 = (case events c2 of
                                  None \<Rightarrow> c2
                                | Some em \<Rightarrow>
                                    if register_listener
                                    then c2\<lparr>events := Some
                                           (subscribe
                                              (case get_event_type (accepts c2) of
                                                 None \<Rightarrow> em
                                               | Some et \<Rightarrow> subscribe em et OnMessageCreateEvent)
                                              InteractionCreateEvent OnInteractionCreateEvent)\<rparr>
                                    else c2);
                          c4 = (case server c3 of
                                  None \<Rightarrow> c3
                                | Some l \<Rightarrow> c3\<lparr>server := Some (Some OnInteractionCreateRequest)\<rparr>)
                      in (c4, [Dispatch STARTING d, CreateTaskDispatch STARTED], None)))))"

definition try_unsubscribe :: "subscriptions \<Rightarrow> event_type \<Rightarrow> listener \<Rightarrow> subscriptions" where
  "try_unsubscribe em e l = (case unsubscribe em e l of Inl exc \<Rightarrow> em | Inr em' \<Rightarrow> em')"

definition Client_close :: "client \<Rightarrow> bool \<Rightarrow> client \<times> effect list \<times> exn option" where
  "Client_close c deregister_listener =
     (if \<not> is_alive c then (c, [], Some (RuntimeError ''Client isn't active''))
      else (let d1 = dispatch_client_callback c CLOSING NoArgs True in
            case d_raised d1 of
              Some exc \<Rightarrow> (c, [Dispatch CLOSING d1], Some exc)
            | None \<Rightarrow>
                (let c1 = (case events c of
                             None \<Rightarrow> c
                           | Some em \<Rightarrow>
                               if deregister_listener
                               then c\<lparr>events := Some
                                      (try_unsubscribe
                                         (case get_event_type (accepts c) of
                                            None \<Rightarrow> em
                                          | Some et \<Rightarrow> try_unsubscribe em et OnMessageCreateEvent)
                                         InteractionCreateEvent OnInteractionCreateEvent),
                                     server := (case server c of None \<Rightarrow> None | Some l \<Rightarrow> Some None)\<rparr>
                               else c);
                     d2 = dispatch_client_callback c1 CLOSED NoArgs True
                 in (c1, [Dispatch CLOSING d1, Dispatch CLOSED d2], d_raised d2))))"

section \<open>Observations and example inputs\<close>

text \<open>What a trace shows: a firing of the not-found callback.\<close>

definition fires_not_found :: "effect list \<Rightarrow> bool" where
  "fires_not_found t =
     list_ex (\<lambda>e. case e of Dispatch n d \<Rightarrow> lower n = lower MESSAGE_COMMAND_NOT_FOUND | _ \<Rightarrow> False) t"

text \<open>
  The content starts with no configured prefix: none of those the getter returns and none
  of the static set.
\<close>

definition no_prefix_matches :: "client \<Rightarrow> string \<Rightarrow> bool" where
  "no_prefix_matches c s =
     ((case prefix_getter c of
         None \<Rightarrow> True
       | Some getter \<Rightarrow> list_all (\<lambda>p. \<not> startswith s p) (getter (MessageContext s))) \<and>
      list_all (\<lambda>p. \<not> startswith s p) (prefixes c))"

text \<open>
  The scenario of the specification: a client with the prefix \<open>!\<close> and one started
  component whose command \<open>ping\<close> responds \<open>pong\<close>. The component has no slash command.
\<close>

definition ping_command :: command_obj where
  "ping_command = \<lparr>cmd_id = 1, names = [''ping''], cmd_checks = [],
      cmd_execute = (\<lambda>cx hks. ([Respond ''pong''], None))\<rparr>"

definition ping_component :: component where
  "ping_component = \<lparr>comp_checks = [], comp_client = True, comp_commands = [ping_command],
      comp_hooks = None, comp_listeners = [(EventClass 0, Listener 0)], started = True\<rparr>"

definition ping_client :: client where
  "ping_client = add_component
     (add_prefix (Client_init (\<lambda>k. Fetched (User 7)) None (Some []) None False) ''!'')
     \<lparr>execute_message = Component_execute ping_component,
      execute_interaction = (\<lambda>name hks. ([], Inr False))\<rparr>"

definition failing_check :: check where
  "failing_check = (\<lambda>cx. False)"

text \<open>Patterns whose capture group is one or more decimal digits, as in all four parsers.\<close>

definition digit_caps :: "pattern \<Rightarrow> bool" where
  "digit_caps p = list_all (\<lambda>a. case a of Cap cl lo hi \<Rightarrow> cl = Digit \<and> 1 \<le> lo | _ \<Rightarrow> True) p"

definition has_cap :: "pattern \<Rightarrow> bool" where
  "has_cap p = list_ex (\<lambda>a. case a of Cap cl lo hi \<Rightarrow> True | _ \<Rightarrow> False) p"

definition decimal_text :: "string \<Rightarrow> bool" where
  "decimal_text s = (s \<noteq> [] \<and> list_all py_isdecimal s)"

definition good_cap :: "string option \<Rightarrow> bool" where
  "good_cap cap = (case cap of None \<Rightarrow> False | Some g \<Rightarrow> decimal_text g)"

text \<open>
  A result of \<open>fetch_my_user\<close> after which the loop of \<open>open\<close> goes round again: a rate
  limit of at most 30 seconds, or an internal server error.
\<close>

definition retryable :: "fetch_result \<Rightarrow> bool" where
  "retryable f =
     (case f of
        FetchRaises (RateLimitedError t) \<Rightarrow> t \<le> 30
      | FetchRaises (RateLimitTooLongError t) \<Rightarrow> t \<le> 30
      | FetchRaises InternalServerError \<Rightarrow> True
      | _ \<Rightarrow> False)"

definition outcome_of :: "fetch_result \<Rightarrow> exn + user" where
  "outcome_of f = (case f of Fetched u \<Rightarrow> Inr u | FetchRaises exc \<Rightarrow> Inl exc)"


definition cb_failure :: "cb_args \<Rightarrow> callback \<Rightarrow> exn option" where
  "cb_failure args cb = snd (cb_run cb args)"




text \<open>
  A client asked to acquire its mention prefix, with a cache that does not hold the bot's
  user, and a REST collaborator that fails twice with a server error before answering.
\<close>

definition mention_client :: client where
  "mention_client =
     Client_init (\<lambda>k. if k < 2 then FetchRaises InternalServerError else Fetched (User 42))
       (Some None) (Some []) None True"

text \<open>
  A client served by an interaction server, with one component whose slash command \<open>ping\<close>
  responds \<open>pong\<close>, and a component whose execution raises a command error.
\<close>

definition pong_slash_component :: client_component where
  "pong_slash_component =
     \<lparr>execute_message = (\<lambda>cx hks. (cx, [], Inr False)),
      execute_interaction = (\<lambda>name hks. if name = ''ping'' then ([CallRespond ''pong''], Inr True) else ([], Inr False))\<rparr>"

definition erring_slash_component :: client_component where
  "erring_slash_component =
     \<lparr>execute_message = (\<lambda>cx hks. (cx, [], Inr False)),
      execute_interaction = (\<lambda>name hks. ([], Inl (CommandError ''bad args'')))\<rparr>"

definition slash_client :: client where
  "slash_client = add_component (Client_init (\<lambda>k. Fetched (User 7)) None None (Some None) False) pong_slash_component"

text \<open>The response future has been resolved at most once.\<close>

definition at_most_once :: "slash_ctx \<Rightarrow> bool" where
  "at_most_once cx = (length (sc_resolved cx) \<le> 1)"

section \<open>Theorems: the snowflake parsers\<close>

lemma py_int_cases: "(\<exists>n. py_int s = Inr n) \<or> py_int s = Inl ValueError"
  by (simp add: py_int_def split: list.splits option.splits)

lemma int_digits_decimal:
  "list_all py_isdecimal s \<Longrightarrow> s \<noteq> [] \<or> prev \<Longrightarrow>
   int_digits prev acc s = Some (foldl (\<lambda>a c. a * 10 + digit_val c) acc s)"
  by (induction s arbitrary: prev acc) auto

lemma decimal_not_space: "py_isdecimal c \<Longrightarrow> \<not> int_isspace c"
  by (auto simp: py_isdecimal_def int_isspace_def)

lemma decimal_not_sign: "py_isdecimal c \<Longrightarrow> c \<noteq> CHR ''-'' \<and> c \<noteq> CHR ''+''"
  by (auto simp: py_isdecimal_def)

lemma int_strip_decimal: "decimal_text s \<Longrightarrow> int_strip s = s"
proof -
  assume d: "decimal_text s"
  then have "dropWhile int_isspace s = s"
    by (cases s) (auto simp: decimal_text_def decimal_not_space)
  moreover have "rev s \<noteq> []" and "py_isdecimal (hd (rev s))"
    using d by (auto simp: decimal_text_def list_all_iff hd_rev)
  then have "dropWhile int_isspace (rev s) = rev s"
    by (cases "rev s") (auto simp: decimal_not_space)
  ultimately show ?thesis by (simp add: int_strip_def)
qed

lemma Snowflake_decimal:
  assumes "decimal_text s"
  shows "Snowflake s = Inr (int (foldl (\<lambda>a c. a * 10 + digit_val c) 0 s))"
proof -
  obtain c cs where s: "s = c # cs" using assms by (cases s) (auto simp: decimal_text_def)
  have c: "py_isdecimal c" using assms s by (simp add: decimal_text_def)
  have all: "list_all py_isdecimal (c # cs)" using assms s by (simp add: decimal_text_def)
  have "int_digits False 0 (c # cs) = Some (foldl (\<lambda>a c. a * 10 + digit_val c) 0 (c # cs))"
    by (rule int_digits_decimal [OF all]) simp
  then show ?thesis
    using int_strip_decimal [OF assms] decimal_not_sign [OF c] s
    by (simp add: Snowflake_def py_int_def del: int_digits.simps)
qed

lemma first_some_map:
  "first_some (map f ks) = Some r \<Longrightarrow> \<exists>k \<in> set ks. f k = Some r"
proof (induction ks)
  case Nil then show ?case by simp
next
  case (Cons k ks) then show ?case by (cases "f k") auto
qed

lemma first_some_pair: "first_some [a, b] = Some r \<Longrightarrow> a = Some r \<or> b = Some r"
  by (cases a; cases b) auto

lemma rep_counts_bounds:
  "k \<in> set (rep_counts cl lo hi s) \<Longrightarrow> lo \<le> k \<and> k \<le> length (takeWhile (in_class cl) s)"
  by (auto simp: rep_counts_def Let_def split: option.splits)

lemma take_run_in_class:
  "k \<le> length (takeWhile P s) \<Longrightarrow> list_all P (take k s) \<and> length (take k s) = k"
proof (induction s arbitrary: k)
  case Nil
  then show ?case by simp
next
  case (Cons x xs)
  show ?case
  proof (cases k)
    case 0
    then show ?thesis by simp
  next
    case (Suc j)
    then have "P x" and "j \<le> length (takeWhile P xs)"
      using Cons.prems by (auto split: if_splits)
    then show ?thesis using Cons.IH [of j] Suc by simp
  qed
qed

lemma digit_caps_Cons:
  "digit_caps (a # p) = ((case a of Cap cl lo hi \<Rightarrow> cl = Digit \<and> 1 \<le> lo | _ \<Rightarrow> True) \<and> digit_caps p)"
  by (simp add: digit_caps_def)

lemma has_cap_Cons:
  "has_cap (a # p) = ((case a of Cap cl lo hi \<Rightarrow> True | _ \<Rightarrow> False) \<or> has_cap p)"
  by (simp add: has_cap_def)

lemma match_here_cap:
  "digit_caps p \<Longrightarrow> good_cap cap \<or> has_cap p \<Longrightarrow> match_here p s cap = Some (cap', rem) \<Longrightarrow> good_cap cap'"
proof (induction p arbitrary: s cap)
  case Nil
  then show ?case by (simp add: has_cap_def)
next
  case (Cons a p)
  have dp: "digit_caps p" using Cons.prems(1) by (simp add: digit_caps_Cons)
  show ?case
  proof (cases a)
    case (Lit c)
    then have ok: "good_cap cap \<or> has_cap p" using Cons.prems(2) by (simp add: has_cap_Cons)
    from Cons.prems(3) Lit obtain xs where "match_here p xs cap = Some (cap', rem)"
      by (cases s) (auto split: if_splits)
    then show ?thesis using Cons.IH [OF dp ok] by blast
  next
    case (Opt c)
    then have ok: "good_cap cap \<or> has_cap p" using Cons.prems(2) by (simp add: has_cap_Cons)
    from Cons.prems(3) Opt obtain xs where "match_here p xs cap = Some (cap', rem)"
      by (cases s) (auto split: if_splits dest: first_some_pair)
    then show ?thesis using Cons.IH [OF dp ok] by blast
  next
    case (Rep cl lo hi)
    then have ok: "good_cap cap \<or> has_cap p" using Cons.prems(2) by (simp add: has_cap_Cons)
    from Cons.prems(3) Rep obtain k where "match_here p (drop k s) cap = Some (cap', rem)"
      by (auto dest!: first_some_map)
    then show ?thesis using Cons.IH [OF dp ok] by blast
  next
    case (Cap cl lo hi)
    from Cons.prems(3) Cap obtain k where k: "k \<in> set (rep_counts cl lo hi s)"
      and m: "match_here p (drop k s) (Some (take k s)) = Some (cap', rem)"
      by (auto dest!: first_some_map)
    have cl: "cl = Digit" and lo: "1 \<le> lo"
      using Cons.prems(1) Cap by (auto simp: digit_caps_Cons)
    have "list_all py_isdecimal (take k s) \<and> length (take k s) = k"
      using rep_counts_bounds [OF k] take_run_in_class [of k "in_class cl" s] cl
      by (simp add: list_all_iff)
    moreover have "1 \<le> k" using rep_counts_bounds [OF k] lo by simp
    ultimately have "good_cap (Some (take k s))"
      by (auto simp: good_cap_def decimal_text_def)
    then show ?thesis using Cons.IH [OF dp _ m] by blast
  qed
qed

lemma findall_scan_decimal:
  "digit_caps p \<Longrightarrow> has_cap p \<Longrightarrow> r \<in> set (findall_scan p n s) \<Longrightarrow> decimal_text r"
proof (induction s arbitrary: n)
  case Nil
  show ?case
  proof (cases "match_here p [] None")
    case None
    then show ?thesis using Nil.prems(3) by (cases "n = 0") simp_all
  next
    case (Some a)
    obtain cap rem where a: "a = (cap, rem)" by (cases a)
    have "good_cap cap" using match_here_cap [OF Nil.prems(1) _ Some [unfolded a]] Nil.prems(2) by simp
    then have "decimal_text (group1 cap)" by (auto simp: good_cap_def group1_def split: option.splits)
    then show ?thesis using Nil.prems(3) Some a by (cases "n = 0") simp_all
  qed
next
  case (Cons c cs)
  show ?case
  proof (cases "n > 0")
    case True
    then show ?thesis using Cons by simp
  next
    case False
    show ?thesis
    proof (cases "match_here p (c # cs) None")
      case None
      then show ?thesis using Cons False by simp
    next
      case (Some a)
      obtain cap rem where a: "a = (cap, rem)" by (cases a)
      have "good_cap cap" using match_here_cap [OF Cons.prems(1) _ Some [unfolded a]] Cons.prems(2) by simp
      then have "decimal_text (group1 cap)" by (auto simp: good_cap_def group1_def split: option.splits)
      then show ?thesis using Cons False Some a by auto
    qed
  qed
qed

lemma regex_caps: "digit_caps (regex cls) \<and> has_cap (regex cls)"
  by (cases cls) (simp_all add: digit_caps_def has_cap_def)

text \<open>
  Claim C9. \<open>match_id\<close> returns \<open>Snowflake(value)\<close> when the string is entirely digits;
  otherwise it returns the snowflake built from the first capture of the parser's regex
  when there is one, which is then a number; otherwise it raises \<open>ValueError\<close>. In every
  case the outcome is a snowflake or \<open>ValueError\<close>.
\<close>

theorem match_id_result:
  "(isdigit v \<longrightarrow> match_id cls v = Snowflake v) \<and>
   (\<not> isdigit v \<longrightarrow>
      (case findall (regex cls) v of
         [] \<Rightarrow> match_id cls v = Inl ValueError
       | r # rs \<Rightarrow> match_id cls v = Snowflake r \<and> (\<exists>n. Snowflake r = Inr (int n)))) \<and>
   ((\<exists>n. match_id cls v = Inr n) \<or> match_id cls v = Inl ValueError)"
proof -
  have digits: "isdigit v \<Longrightarrow> match_id cls v = Snowflake v"
    by (simp add: match_id_def)
  have found: "\<exists>n. Snowflake r = Inr (int n)" if "findall (regex cls) v = r # rs" for r rs
  proof -
    have "r \<in> set (findall_scan (regex cls) 0 v)" using that by (simp add: findall_def)
    then have "decimal_text r" using regex_caps [of cls] findall_scan_decimal by blast
    then show ?thesis using Snowflake_decimal by blast
  qed
  have mention: "\<not> isdigit v \<Longrightarrow>
      (case findall (regex cls) v of
         [] \<Rightarrow> match_id cls v = Inl ValueError
       | r # rs \<Rightarrow> match_id cls v = Snowflake r \<and> (\<exists>n. Snowflake r = Inr (int n)))"
    using found by (auto simp: match_id_def split: list.splits)
  have total: "(\<exists>n. match_id cls v = Inr n) \<or> match_id cls v = Inl ValueError"
    using py_int_cases by (auto simp: match_id_def Snowflake_def split: list.splits)
  show ?thesis using digits mention total by blast
qed

theorem match_id_result_witness:
  "isdigit ''42'' \<and> match_id ChannelIDParser ''42'' = Inr 42 \<and>
   \<not> isdigit ''<@!123>'' \<and> findall (regex UserIDParser) ''<@!123>'' = [''123''] \<and>
   match_id UserIDParser ''<@!123>'' = Inr 123 \<and>
   \<not> isdigit ''bot'' \<and> findall (regex UserIDParser) ''bot'' = [] \<and>
   match_id UserIDParser ''bot'' = Inl ValueError"
proof -
  have a: "isdigit ''42''" by code_simp
  have b: "\<not> isdigit ''<@!123>''" by code_simp
  have c: "findall (regex UserIDParser) ''<@!123>'' = [''123'']" by code_simp
  have d: "\<not> isdigit ''bot''" by code_simp
  have e: "findall (regex UserIDParser) ''bot'' = []" by code_simp
  have f: "Snowflake ''42'' = Inr 42" by code_simp
  have g: "Snowflake ''123'' = Inr 123" by code_simp
  show ?thesis
    using match_id_result [of "''42''" ChannelIDParser] match_id_result [of "''<@!123>''" UserIDParser]
      match_id_result [of "''bot''" UserIDParser] a b c d e f g
    by simp
qed

section \<open>Theorems: Component\<close>

text \<open>
  Claim C4. A component that is not started returns false from \<open>execute\<close>, evaluates none of
  its checks, considers none of its commands, and leaves the context as it was.
\<close>

theorem execute_not_started:
  "\<not> started cpt \<Longrightarrow> Component_execute cpt cx hks = (cx, [], Inr False)"
  by (simp add: Component_execute_def)

theorem execute_not_started_witness:
  "\<not> started (ping_component\<lparr>started := False\<rparr>) \<and>
   Component_execute (ping_component\<lparr>started := False\<rparr>) (MessageContext ''ping'') None
     = (MessageContext ''ping'', [], Inr False)"
  using execute_not_started [of "ping_component\<lparr>started := False\<rparr>" "MessageContext ''ping''" None]
  by simp

text \<open>
  \<open>open\<close> on a started component and \<open>close\<close> on a component that is not started return
  without error and change neither the component nor the subscriptions.
\<close>

lemma component_open_close_noop:
  "started a \<Longrightarrow> \<not> started b \<Longrightarrow>
   Component_open a d = (a, d, None) \<and> Component_close b d' = (b, d', None)"
  by (simp add: Component_open_def Component_close_def)

lemma execute_started_evaluates_checks:
  "started cpt \<Longrightarrow>
   \<exists>t. fst (snd (Component_execute cpt cx hks)) = map EvalCheck [0 ..< length (comp_checks cpt)] @ t"
  by (auto simp: Component_execute_def check_context_def Let_def split: prod.splits option.splits)

section \<open>Theorems: message dispatch\<close>

lemma content_MessageContext: "content (MessageContext s) = s"
  by (simp add: MessageContext_def)

lemma find_None_list_all: "(find P xs = None) = list_all (\<lambda>x. \<not> P x) xs"
  by (induction xs) auto

lemma check_prefix_None_iff:
  "check_prefix c (MessageContext s) = None \<longleftrightarrow> no_prefix_matches c s"
  by (cases "prefix_getter c")
     (auto simp: check_prefix_def no_prefix_matches_def content_MessageContext
        find_None_list_all [symmetric] split: option.splits)

text \<open>
  Claim C2, as stated: a message whose content starts with no configured prefix fires the
  not-found callback. It fails for the client of the scenario and the content \<open>ping\<close>.
\<close>

theorem no_prefix_counterexample:
  "no_prefix_matches ping_client ''ping'' \<and>
   \<not> fires_not_found (fst (on_message_create_event ping_client (Some ''ping'')))"
  by code_simp

text \<open>
  Claim C2, amended. For a message whose content starts with no configured prefix the
  handler stops with no effect at all: no response and no lifecycle callback.
\<close>

theorem no_prefix_no_effect:
  "no_prefix_matches c s \<Longrightarrow> on_message_create_event c (Some s) = ([], None)"
  using check_prefix_None_iff [of c s] by (simp add: on_message_create_event_def)

theorem no_prefix_no_effect_witness:
  "no_prefix_matches ping_client ''ping'' \<and>
   on_message_create_event ping_client (Some ''ping'') = ([], None)"
proof -
  have h: "no_prefix_matches ping_client ''ping''" by code_simp
  from no_prefix_no_effect [OF h] h show ?thesis by simp
qed

text \<open>
  Claim C5. When a prefix matched and some client-level check fails on the context (with
  the prefix stripped), the handler stops with no effect: no response is sent and the
  not-found callback is not fired.
\<close>

theorem failing_global_check_silent:
  assumes "check_prefix c (MessageContext s) = Some prefix"
    and "chk \<in> set (checks c)"
    and "\<not> chk (set_triggering_prefix
                 (set_content (MessageContext s) (lstrip (drop (length prefix) (lstrip s)))) prefix)"
  shows "on_message_create_event c (Some s) = ([], None)"
proof -
  have "\<not> Client_check c (set_triggering_prefix
          (set_content (MessageContext s) (lstrip (drop (length prefix) (lstrip s)))) prefix)"
    using assms(2,3) by (auto simp: Client_check_def gather_checks_def list_all_iff)
  then show ?thesis
    using assms(1) by (simp add: on_message_create_event_def content_MessageContext)
qed

theorem failing_global_check_silent_witness:
  "check_prefix (add_check ping_client failing_check) (MessageContext ''!ping'') = Some ''!'' \<and>
   failing_check \<in> set (checks (add_check ping_client failing_check)) \<and>
   \<not> failing_check (set_triggering_prefix
        (set_content (MessageContext ''!ping'') (lstrip (drop (length ''!'') (lstrip ''!ping'')))) ''!'') \<and>
   on_message_create_event (add_check ping_client failing_check) (Some ''!ping'') = ([], None)"
proof -
  have a: "check_prefix (add_check ping_client failing_check) (MessageContext ''!ping'') = Some ''!''"
    by code_simp
  have b: "failing_check \<in> set (checks (add_check ping_client failing_check))"
    by (simp add: add_check_def)
  have c: "\<not> failing_check (set_triggering_prefix
        (set_content (MessageContext ''!ping'') (lstrip (drop (length ''!'') (lstrip ''!ping'')))) ''!'')"
    by (simp add: failing_check_def)
  from failing_global_check_silent [OF a b c] a b c show ?thesis by simp
qed

text \<open>Leaving the loop over the components by \<open>break\<close> leads to the not-found firing.\<close>

lemma fires_not_found_dispatch: "fires_not_found (fst (not_found_dispatch c cx t))"
  by (simp add: not_found_dispatch_def fires_not_found_def Let_def)

lemma break_falls_through:
  assumes "check_prefix c (MessageContext s) = Some prefix"
    and "Client_check c (set_triggering_prefix
           (set_content (MessageContext s) (lstrip (drop (length prefix) (lstrip s)))) prefix)"
    and "execute_components (components c)
           (set_triggering_prefix
             (set_content (MessageContext s) (lstrip (drop (length prefix) (lstrip s)))) prefix)
           (get_message_hooks c) = (cx2, t, Broke)"
  shows "fires_not_found (fst (on_message_create_event c (Some s)))"
  using assms fires_not_found_dispatch [of c cx2 t]
  by (simp add: on_message_create_event_def content_MessageContext)

text \<open>
  Claim C1 at the scenario of the specification: the content \<open>!ping\<close> makes the component
  execute its command and respond, the loop is left by \<open>break\<close>, and the handler goes on to
  fire the not-found callback.
\<close>

theorem found_command_fires_not_found:
  "on_message_create_event ping_client (Some ''!ping'') =
     ([ConsiderCommand 1, ExecuteCommand 1, Respond ''pong'',
       Dispatch MESSAGE_COMMAND_NOT_FOUND
         \<lparr>d_raised = None, d_finished = [], d_pending = [], d_logged = []\<rparr>], None)"
  by code_simp

section \<open>Theorems: opening and closing the client\<close>

text \<open>\<open>close\<close> never changes \<open>is_alive\<close>.\<close>

lemma Client_close_keeps_is_alive: "is_alive (fst (Client_close c dl)) = is_alive c"
  by (simp add: Client_close_def Let_def split: option.splits)

text \<open>
  Claim C3 at a fresh client: \<open>open\<close> succeeds, \<open>close\<close> succeeds and leaves \<open>is_alive\<close> set,
  so a second \<open>close\<close> succeeds as well and a later \<open>open\<close> is refused.
\<close>

theorem close_twice_no_error:
  "(case Client_open ping_client True 4 of (c1, t1, e1) \<Rightarrow>
    case Client_close c1 True of (c2, t2, e2) \<Rightarrow>
    case Client_close c2 True of (c3, t3, e3) \<Rightarrow>
    case Client_open c3 True 4 of (c4, t4, e4) \<Rightarrow> (e1, e2, is_alive c2, e3, e4))
   = (None, None, True, None, Some (RuntimeError ''Client is already alive''))"
  by code_simp

lemma fetch_step:
  "fetch_my_user_retry (Suc n) r k =
     (if retryable (r k) then fetch_my_user_retry n r (Suc k) else (outcome_of (r k), Suc k))"
  by (simp add: retryable_def outcome_of_def split: fetch_result.splits exn.splits)

lemma fetch_last: "fetch_my_user_retry 0 r k = (outcome_of (r k), Suc k)"
  by (simp add: outcome_of_def split: fetch_result.splits)

lemma fetch_calls:
  "fetch_my_user_retry n r k = (res, k') \<Longrightarrow>
     k < k' \<and> k' \<le> k + n + 1 \<and> res = outcome_of (r (k' - 1)) \<and>
     (\<forall>j. k \<le> j \<and> Suc j < k' \<longrightarrow> retryable (r j)) \<and>
     (k' < k + n + 1 \<longrightarrow> \<not> retryable (r (k' - 1)))"
proof (induction n arbitrary: k)
  case 0
  then have "res = outcome_of (r k)" and "k' = Suc k"
    by (simp_all only: fetch_last prod.inject)
  then show ?case by auto
next
  case (Suc n)
  show ?case
  proof (cases "retryable (r k)")
    case True
    then have "fetch_my_user_retry n r (Suc k) = (res, k')"
      using Suc.prems by (simp only: fetch_step if_True)
    from Suc.IH [OF this]
    have a: "Suc k < k'" and b: "k' \<le> Suc k + n + 1" and c: "res = outcome_of (r (k' - 1))"
      and d: "\<forall>j. Suc k \<le> j \<and> Suc j < k' \<longrightarrow> retryable (r j)"
      and e: "k' < Suc k + n + 1 \<longrightarrow> \<not> retryable (r (k' - 1))"
      by blast+
    have "retryable (r j)" if "k \<le> j \<and> Suc j < k'" for j
    proof (cases "j = k")
      case True
      then show ?thesis using \<open>retryable (r k)\<close> by simp
    next
      case False
      then have "Suc k \<le> j" using that by simp
      then show ?thesis using d that by blast
    qed
    then show ?thesis using a b c e by simp
  next
    case False
    then have "res = outcome_of (r k)" and "k' = Suc k"
      using Suc.prems by (simp_all only: fetch_step if_False prod.inject)
    then show ?thesis using False by auto
  qed
qed

lemma set_fold_set_add: "set (fold set_add xs ys) = set ys \<union> set xs"
  by (induction xs arbitrary: ys) (auto simp: set_add_def)


lemma Client_open_after_prefix:
  assumes "\<not> is_alive c"
    and "d_raised (dispatch_client_callback c STARTING NoArgs False) = None"
    and "open_mention_prefix (c\<lparr>is_alive := True\<rparr>) n = (c2, None)"
  shows "\<exists>c4 t. Client_open c register_listener n = (c4, t, None) \<and>
           prefixes c4 = prefixes c2 \<and> rest_calls c4 = rest_calls c2"
  using assms
  by (cases "events c2"; cases "server c2"; cases register_listener)
     (simp_all add: Client_open_def Let_def)

lemma Client_open_fetch:
  assumes "\<not> is_alive c" and "grab_mention_prefix c"
    and "cache c = None \<or> cache c = Some None"
    and "d_raised (dispatch_client_callback c STARTING NoArgs False) = None"
  shows "case Client_open c register_listener n of
           (c', t, res) \<Rightarrow>
             rest_calls c < rest_calls c' \<and> rest_calls c' \<le> rest_calls c + n + 1 \<and>
             (\<forall>j. rest_calls c \<le> j \<and> Suc j < rest_calls c' \<longrightarrow> retryable (rest c j)) \<and>
             (rest_calls c' < rest_calls c + n + 1 \<longrightarrow> \<not> retryable (rest c (rest_calls c' - 1))) \<and>
             (case rest c (rest_calls c' - 1) of
                Fetched u \<Rightarrow>
                  res = None \<and>
                  set (prefixes c') =
                    set (prefixes c) \<union> {''<@'' @ str_nat (user_id u) @ ''>'', ''<@!'' @ str_nat (user_id u) @ ''>''}
              | FetchRaises exc \<Rightarrow> res = Some exc \<and> prefixes c' = prefixes c)"
proof -
  obtain r k where f: "fetch_my_user_retry n (rest c) (rest_calls c) = (r, k)"
    by (cases "fetch_my_user_retry n (rest c) (rest_calls c)")
  note facts = fetch_calls [OF f]
  have user0: "(case cache c of None \<Rightarrow> None | Some me \<Rightarrow> me) = None"
    using assms(3) by auto
  show ?thesis
  proof (cases r)
    case (Inl exc)
    then have o: "open_mention_prefix (c\<lparr>is_alive := True\<rparr>) n = (c\<lparr>is_alive := True, rest_calls := k\<rparr>, Some exc)"
      using assms(2) user0 f by (simp add: open_mention_prefix_def)
    have res: "Client_open c register_listener n =
        (c\<lparr>is_alive := True, rest_calls := k\<rparr>,
         [Dispatch STARTING (dispatch_client_callback c STARTING NoArgs False)], Some exc)"
      using assms(1,4) o by (simp add: Client_open_def Let_def)
    have "rest c (k - 1) = FetchRaises exc"
      using facts Inl by (cases "rest c (k - 1)") (auto simp: outcome_of_def)
    then show ?thesis using facts by (simp add: res)
  next
    case (Inr u)
    then have o: "open_mention_prefix (c\<lparr>is_alive := True\<rparr>) n =
        (c\<lparr>is_alive := True, rest_calls := k,
           prefixes := fold set_add (mention_prefixes u) (prefixes c),
           grab_mention_prefix := False\<rparr>, None)"
      using assms(2) user0 f by (simp add: open_mention_prefix_def)
    obtain c' t where res: "Client_open c register_listener n = (c', t, None)"
      and p: "prefixes c' = fold set_add (mention_prefixes u) (prefixes c)" and rc: "rest_calls c' = k"
      using Client_open_after_prefix [OF assms(1,4) o, of register_listener] by auto
    have sp: "set (prefixes c') = set (prefixes c) \<union> set (mention_prefixes u)"
      by (simp only: p set_fold_set_add)
    have "rest c (k - 1) = Fetched u"
      using facts Inr by (cases "rest c (k - 1)") (auto simp: outcome_of_def)
    then show ?thesis
      using facts sp rc by (auto simp: res mention_prefixes_def)
  qed
qed

lemma not_retryable_too_long:
  "30 < t \<Longrightarrow> \<not> retryable (FetchRaises (RateLimitedError t)) \<and>
               \<not> retryable (FetchRaises (RateLimitTooLongError t))"
  by (simp add: retryable_def)

text \<open>
  Claim C8. When \<open>open\<close> is to acquire the mention prefix and the cache does not hold the
  bot's user, the user is fetched from REST: at least one and at most one more call than the
  retry iterator yields; every call but the last failed with a rate limit of at most 30
  seconds or an internal server error, and such a failure is always followed by another
  call while the iterator lasts (the calls stop early only at a result of another kind);
  a rate limit above 30 seconds ends the loop and is raised by \<open>open\<close>; and when the last
  call returns the user, \<open>open\<close> succeeds and the prefix set gains exactly the two mention
  forms. Any other failure of the last call is raised and leaves the prefixes as they were.
\<close>

theorem open_acquires_mention_prefix:
  assumes "\<not> is_alive c" and "grab_mention_prefix c"
    and "cache c = None \<or> cache c = Some None"
    and "d_raised (dispatch_client_callback c STARTING NoArgs False) = None"
  shows "case Client_open c register_listener n of
           (c', t, res) \<Rightarrow>
             rest_calls c < rest_calls c' \<and> rest_calls c' \<le> rest_calls c + n + 1 \<and>
             (\<forall>j. rest_calls c \<le> j \<and> Suc j < rest_calls c' \<longrightarrow> retryable (rest c j)) \<and>
             (rest_calls c' < rest_calls c + n + 1 \<longrightarrow> \<not> retryable (rest c (rest_calls c' - 1))) \<and>
             (\<forall>j w. rest_calls c \<le> j \<and> j < rest_calls c' \<and> 30 < w \<and>
                    (rest c j = FetchRaises (RateLimitedError w) \<or>
                     rest c j = FetchRaises (RateLimitTooLongError w)) \<longrightarrow>
                    rest_calls c' = Suc j \<and> res = Some (case rest c j of FetchRaises exc \<Rightarrow> exc)) \<and>
             (case rest c (rest_calls c' - 1) of
                Fetched u \<Rightarrow>
                  res = None \<and>
                  set (prefixes c') =
                    set (prefixes c) \<union> {''<@'' @ str_nat (user_id u) @ ''>'', ''<@!'' @ str_nat (user_id u) @ ''>''}
              | FetchRaises exc \<Rightarrow> res = Some exc \<and> prefixes c' = prefixes c)"
proof -
  obtain c' t res where o: "Client_open c register_listener n = (c', t, res)"
    by (cases "Client_open c register_listener n")
  from Client_open_fetch [OF assms, where register_listener = register_listener and n = n] o
  have lo: "rest_calls c < rest_calls c'" and hi: "rest_calls c' \<le> rest_calls c + n + 1"
    and retry: "\<forall>j. rest_calls c \<le> j \<and> Suc j < rest_calls c' \<longrightarrow> retryable (rest c j)"
    and early: "rest_calls c' < rest_calls c + n + 1 \<longrightarrow> \<not> retryable (rest c (rest_calls c' - 1))"
    and last: "case rest c (rest_calls c' - 1) of
                Fetched u \<Rightarrow>
                  res = None \<and>
                  set (prefixes c') =
                    set (prefixes c) \<union> {''<@'' @ str_nat (user_id u) @ ''>'', ''<@!'' @ str_nat (user_id u) @ ''>''}
              | FetchRaises exc \<Rightarrow> res = Some exc \<and> prefixes c' = prefixes c"
    by simp_all
  have long: "rest_calls c' = Suc j \<and> res = Some (case rest c j of FetchRaises exc \<Rightarrow> exc)"
    if h: "rest_calls c \<le> j \<and> j < rest_calls c' \<and> 30 < w \<and>
           (rest c j = FetchRaises (RateLimitedError w) \<or> rest c j = FetchRaises (RateLimitTooLongError w))"
    for j w
  proof -
    have nr: "\<not> retryable (rest c j)" using h not_retryable_too_long [of w] by auto
    then have "\<not> Suc j < rest_calls c'" using retry h by blast
    then have k: "rest_calls c' = Suc j" using h by simp
    then have "rest c (rest_calls c' - 1) = rest c j" by simp
    then show ?thesis using last h k by auto
  qed
  show ?thesis using lo hi retry early long last by (simp only: o prod.case) blast
qed

theorem open_acquires_mention_prefix_witness:
  "\<not> is_alive mention_client \<and> grab_mention_prefix mention_client \<and>
   (cache mention_client = None \<or> cache mention_client = Some None) \<and>
   d_raised (dispatch_client_callback mention_client STARTING NoArgs False) = None \<and>
   (case Client_open mention_client True 4 of
      (c', t, res) \<Rightarrow> rest_calls c' = 3 \<and> res = None \<and> set (prefixes c') = {''<@42>'', ''<@!42>''})"
proof -
  have a: "\<not> is_alive mention_client" by (simp add: mention_client_def Client_init_def)
  have b: "grab_mention_prefix mention_client" by (simp add: mention_client_def Client_init_def)
  have c: "cache mention_client = None \<or> cache mention_client = Some None"
    by (simp add: mention_client_def Client_init_def)
  have d: "d_raised (dispatch_client_callback mention_client STARTING NoArgs False) = None"
    by (simp add: mention_client_def Client_init_def dispatch_client_callback_def)
  obtain c' t res where o: "Client_open mention_client True 4 = (c', t, res)"
    by (cases "Client_open mention_client True 4")
  have calls: "rest_calls c' = 3"
  proof -
    have "rest_calls (fst (Client_open mention_client True 4)) = 3" by code_simp
    then show ?thesis by (simp add: o)
  qed
  have r0: "rest_calls mention_client = 0" and r2: "rest mention_client 2 = Fetched (User 42)"
    and p0: "prefixes mention_client = []"
    by (simp_all add: mention_client_def Client_init_def)
  have s42: "str_nat 42 = ''42''" by code_simp
  from open_acquires_mention_prefix [OF a b c d, where register_listener = True and n = 4] o calls r2 p0 s42
  have "res = None \<and> set (prefixes c') = {''<@42>'', ''<@!42>''}" by auto
  then show ?thesis using a b c d o calls by simp
qed

section \<open>Theorems: lifecycle callbacks\<close>

lemma wrap_id: "t_id (wrap_client_callback cb args s) = cb_id cb"
  by (cases "cb_run cb args") (auto simp: wrap_client_callback_def split: option.splits)


lemma wrap_raises:
  "t_raises (wrap_client_callback cb args s) = (if s then None else cb_failure args cb)"
  by (cases "cb_run cb args") (auto simp: wrap_client_callback_def cb_failure_def split: option.splits)

lemma wrap_logs:
  "t_logs (wrap_client_callback cb args s) = (if s then cb_failure args cb else None)"
  by (cases "cb_run cb args") (auto simp: wrap_client_callback_def cb_failure_def split: option.splits)

lemma map_filter_map: "List.map_filter f (map g xs) = List.map_filter (\<lambda>x. f (g x)) xs"
  by (induction xs) (auto simp: List.map_filter_def)


lemma gather_suppressed:
  "gather (map (\<lambda>cb. wrap_client_callback cb args True) cbs) =
     \<lparr>d_raised = None, d_finished = map cb_id cbs, d_pending = [],
      d_logged = List.map_filter (cb_failure args) cbs\<rparr>"
proof -
  have "filter (\<lambda>t. t_raises t \<noteq> None) (map (\<lambda>cb. wrap_client_callback cb args True) cbs) = []"
    by (simp add: filter_empty_conv wrap_raises)
  then show ?thesis
    by (simp add: gather_def map_filter_map wrap_logs wrap_id comp_def)
qed









section \<open>Theorems: interaction requests\<close>

text \<open>No path of the handler resolves the response future twice.\<close>

lemma slash_respond_once: "at_most_once cx \<Longrightarrow> at_most_once (slash_respond cx msg)"
  by (simp add: at_most_once_def slash_respond_def)

lemma mark_not_found_once: "at_most_once cx \<Longrightarrow> at_most_once (mark_not_found cx)"
  by (simp add: at_most_once_def mark_not_found_def)

lemma defer_timer_elapses_once: "at_most_once cx \<Longrightarrow> at_most_once (defer_timer_elapses cx)"
  by (simp add: at_most_once_def defer_timer_elapses_def)

lemma apply_actions_once: "at_most_once cx \<Longrightarrow> at_most_once (foldl apply_action cx acts)"
proof (induction acts arbitrary: cx)
  case Nil
  then show ?case by simp
next
  case (Cons a acts)
  then show ?case by (cases a) (simp_all add: slash_respond_once defer_timer_elapses_once)
qed

lemma execute_interactions_once:
  "at_most_once cx \<Longrightarrow> at_most_once (fst (execute_interactions cpts name hks cx))"
proof (induction cpts arbitrary: cx)
  case Nil
  then show ?case by simp
next
  case (Cons cpt cpts)
  obtain acts r where e: "execute_interaction cpt name hks = (acts, r)"
    by (cases "execute_interaction cpt name hks")
  have a: "at_most_once (foldl apply_action cx acts)" by (rule apply_actions_once [OF Cons.prems])
  show ?case
  proof (cases r)
    case (Inl exc)
    then show ?thesis using e a by simp
  next
    case (Inr b)
    then show ?thesis using e a Cons.IH [OF a] by (cases b) simp_all
  qed
qed

lemma return_await_future_once:
  "at_most_once cx \<Longrightarrow> at_most_once (q_ctx (return_await_future cx effs))"
  by (simp add: return_await_future_def await_future_def Let_def defer_timer_elapses_once)

lemma request_resolved_at_most_once:
  "at_most_once (q_ctx (on_interaction_create_request c name))"
proof -
  let ?cx = "case auto_defer_after c of None \<Rightarrow> SlashContext (interaction_not_found c)
             | Some seconds \<Rightarrow> start_defer_timer (SlashContext (interaction_not_found c)) seconds"
  have start: "at_most_once ?cx"
    by (simp add: at_most_once_def SlashContext_def start_defer_timer_def split: option.splits)
  obtain cx1 ex where l: "execute_interactions (components c) name (get_slash_hooks c) ?cx = (cx1, ex)"
    by (cases "execute_interactions (components c) name (get_slash_hooks c) ?cx")
  have c1: "at_most_once cx1" using execute_interactions_once [OF start, of "components c" name "get_slash_hooks c"] l by simp
  have nf: "at_most_once (q_ctx (slash_not_found c cx1))"
    using c1 by (simp add: slash_not_found_def Let_def add_done_callback_async_def return_await_future_once)
  show ?thesis
  proof (cases ex)
    case Broke
    then show ?thesis using l c1 by (simp add: on_interaction_create_request_def Let_def return_await_future_once)
  next
    case Exhausted
    then show ?thesis using l nf by (simp add: on_interaction_create_request_def Let_def)
  next
    case (Raised exc)
    then show ?thesis using l c1 nf
      by (cases exc) (simp_all add: on_interaction_create_request_def Let_def return_await_future_once slash_respond_once)
  qed
qed

text \<open>
  The paths that resolve it once: a command that responds, a command error, and, when no
  command is found, the deferral timer alone, which answers with the deferred response
  because the body of the done-callback never marks the context as not found.
\<close>

lemma not_found_request_deferred_only:
  "sc_resolved (q_ctx (on_interaction_create_request slash_client ''nope'')) = [DeferredResponse]"
  by code_simp

lemma found_request_resolved_once:
  "sc_resolved (q_ctx (on_interaction_create_request (set_auto_defer_after slash_client None) ''ping''))
     = [MessageResponse ''pong'']"
  by code_simp

lemma error_request_resolved_once:
  "sc_resolved (q_ctx (on_interaction_create_request
      (set_auto_defer_after (add_component slash_client erring_slash_component) None) ''nope''))
     = [MessageResponse ''bad args'']"
  by code_simp

text \<open>
  With automatic deferral switched off and no component finding the command, nothing
  resolves the future and the handler never returns.
\<close>

lemma nothing_found:
  "list_all (\<lambda>cpt. execute_interaction cpt name hks = ([], Inr False)) cpts \<Longrightarrow>
   execute_interactions cpts name hks cx = (cx, Exhausted)"
  by (induction cpts) simp_all

lemma not_found_without_timer_never_resolves:
  assumes "auto_defer_after c = None"
    and "list_all (\<lambda>cpt. execute_interaction cpt name (get_slash_hooks c) = ([], Inr False)) (components c)"
  shows "q_returned (on_interaction_create_request c name) = None \<and>
         q_raised (on_interaction_create_request c name) = None \<and>
         sc_resolved (q_ctx (on_interaction_create_request c name)) = []"
  using assms(1) nothing_found [OF assms(2)]
  by (simp add: on_interaction_create_request_def Let_def slash_not_found_def add_done_callback_async_def
        return_await_future_def await_future_def defer_timer_elapses_def SlashContext_def)

text \<open>
  Claim C6 at a client with \<open>set_auto_defer_after(None)\<close> and an interaction for a command
  that no component has: the not-found callback is fired, but \<open>mark_not_found\<close> and
  \<open>cancel_defer\<close> are never run; the response future is resolved zero times and the
  handler never returns a response.
\<close>

theorem not_found_request_never_resolved:
  "on_interaction_create_request (set_auto_defer_after slash_client None) ''nope'' =
     \<lparr>q_returned = None, q_raised = None,
      q_ctx = \<lparr>sc_not_found_message = Some ''Command not found'', sc_resolved = [], sc_timer = False,
               sc_followups = []\<rparr>,
      q_effects = [Dispatch SLASH_COMMAND_NOT_FOUND
                     \<lparr>d_raised = None, d_finished = [], d_pending = [], d_logged = []\<rparr>]\<rparr>"
  by code_simp

section \<open>Theorems: repeated open and close\<close>

lemma dispatch_suppressed_no_raise: "d_raised (dispatch_client_callback c name args True) = None"
proof (cases "client_callbacks c (lower name)")
  case None
  then show ?thesis by (simp add: dispatch_client_callback_def)
next
  case (Some cbs)
  then show ?thesis
    using gather_suppressed [of args cbs] by (simp add: dispatch_client_callback_def)
qed

lemma Client_close_alive_no_error:
  "is_alive c \<Longrightarrow> snd (snd (Client_close c dl)) = None \<and> is_alive (fst (Client_close c dl))"
  by (simp add: Client_close_def Let_def dispatch_suppressed_no_raise split: option.splits)

lemma Client_guards:
  "is_alive c \<Longrightarrow> \<not> is_alive c' \<Longrightarrow>
   Client_open c register_listener n = (c, [], Some (RuntimeError ''Client is already alive'')) \<and>
   Client_close c' deregister_listener = (c', [], Some (RuntimeError ''Client isn't active''))"
  by (simp add: Client_open_def Client_close_def)

text \<open>
  Claim C10 at the component and the client of the scenario: \<open>open\<close> on the started
  component and \<open>close\<close> on the component that is not started change nothing and raise
  nothing; a second \<open>Client.open\<close> raises; but \<open>Client.close\<close> after \<open>open\<close> raises neither
  the first time nor the second.
\<close>

theorem repeated_client_close_no_error:
  "Component_open ping_component [] = (ping_component, [], None) \<and>
   Component_close (ping_component\<lparr>started := False\<rparr>) [] = (ping_component\<lparr>started := False\<rparr>, [], None) \<and>
   (case Client_open ping_client True 4 of (c1, t1, e1) \<Rightarrow>
    case Client_open c1 True 4 of (c2, t2, e2) \<Rightarrow>
    case Client_close c1 True of (c3, t3, e3) \<Rightarrow>
    case Client_close c3 True of (c4, t4, e4) \<Rightarrow> (e1, e2, e3, e4))
   = (None, Some (RuntimeError ''Client is already alive''), None, None)"
proof -
  have a: "Component_open ping_component [] = (ping_component, [], None)"
    by (simp add: Component_open_def ping_component_def)
  have b: "Component_close (ping_component\<lparr>started := False\<rparr>) []
             = (ping_component\<lparr>started := False\<rparr>, [], None)"
    by (simp add: Component_close_def)
  have c: "(case Client_open ping_client True 4 of (c1, t1, e1) \<Rightarrow>
            case Client_open c1 True 4 of (c2, t2, e2) \<Rightarrow>
            case Client_close c1 True of (c3, t3, e3) \<Rightarrow>
            case Client_close c3 True of (c4, t4, e4) \<Rightarrow> (e1, e2, e3, e4))
           = (None, Some (RuntimeError ''Client is already alive''), None, None)"
    by code_simp
  show ?thesis using a b c by (intro conjI)
qed

end
